theory Spec2Isabelle
  imports Main
begin

section \<open>Data model (models.py, lines 8-19, 103-145, 216-261)\<close>

text \<open>
  The markup constants of lines 8-12. \<open>HTML = 4\<close> is commented out in the source.
\<close>

definition MARKDOWN :: int where "MARKDOWN = 1"
definition TEXTILE :: int where "TEXTILE = 2"
definition REST :: int where "REST = 3"
definition PLAINTEXT :: int where "PLAINTEXT = 5"

text \<open>
  A \<open>datetime\<close> value is a point on the clock. Python's \<open>datetime\<close> objects are
  always truthy, so a nullable date column is falsy exactly when it is \<open>None\<close>.
\<close>

type_synonym datetime = int

text \<open>
  The columns that \<open>ThreadedComment\<close> and \<open>FreeThreadedComment\<close> share. The column
  \<open>id\<close> is called \<open>comment_id\<close> here. Of the related object \<open>parent\<close> the code only
  ever reads \<open>parent.id\<close> and whether \<open>parent\<close> is \<open>None\<close>; a model instance has no
  \<open>__len__\<close> or \<open>__nonzero__\<close> and is therefore truthy. So the field \<open>parent\<close> holds
  \<open>None\<close> for a null parent and \<open>Some (parent.id)\<close> otherwise. \<open>markup\<close> is a nullable
  integer column.
\<close>

record comment =
  comment_id :: int
  content_type :: int
  object_id :: int
  parent :: "int option"
  date_submitted :: datetime
  date_modified :: datetime
  date_approved :: "datetime option"
  comment :: string
  markup :: "int option"
  is_public :: bool
  is_approved :: bool
  ip_address :: "string option"

text \<open>
  The two model classes extend the shared columns by their author columns. Every
  function below is written for \<open>'a comment_scheme\<close> and so applies to both.
\<close>

record threaded_comment = comment +
  user :: int

record free_threaded_comment = comment +
  name :: string
  website :: string
  email :: string

text \<open>
  The object a comment is attached to: \<open>ContentType.objects.get_for_model\<close> gives the
  content type of its model, \<open>pk\<close> is its primary key.
\<close>

record content_object =
  model_type :: int
  pk :: int

definition get_for_model :: "content_object \<Rightarrow> int" where
  "get_for_model obj = model_type obj"

section \<open>The managers (lines 34-101)\<close>

text \<open>
  A table is the list of its rows in the order in which the default manager's query
  set yields them; \<open>QuerySet.filter\<close> is \<open>filter\<close> on that list.
  \<open>ThreadedCommentManager\<close> inherits \<open>get_query_set\<close> from the framework's manager
  (all rows); \<open>PublicThreadedCommentManager\<close> overrides it (lines 98-101).
\<close>

datatype manager = ThreadedCommentManager | PublicThreadedCommentManager

definition get_query_set :: "manager \<Rightarrow> 'a comment_scheme list \<Rightarrow> 'a comment_scheme list" where
  "get_query_set self table =
     (case self of
        ThreadedCommentManager \<Rightarrow> table
      | PublicThreadedCommentManager \<Rightarrow>
          filter (\<lambda>c. is_public c = True \<or> is_approved c = True) table)"

section \<open>Depth-first traversal (lines 21-32, 40-64)\<close>

text \<open>
  \<open>get_tree\<close> materialises the query into the Python list \<open>children\<close> and hands the same
  objects to \<open>dfs\<close> as \<open>node\<close> and as members of \<open>all_nodes\<close>. An object is referred to
  by its position in that list. \<open>dfs\<close> writes the attribute \<open>depth\<close> of the object it is
  called on; this attribute is not a column, so it lives in a store of its own, from
  references to values, which is threaded through the calls. The store is only
  written, never read, by the traversal.

  The recursion of \<open>dfs\<close> is bounded by the interpreter's recursion limit; \<open>fuel\<close> is
  the number of nested \<open>dfs\<close> frames still available, and \<open>None\<close> is the
  \<open>RuntimeError\<close> raised when it is exhausted. \<open>dfs_for\<close> is the \<open>for\<close> loop of lines
  29-31 over the references not yet visited, with the loop's \<open>to_return\<close>.
\<close>

type_synonym depth_store = "nat \<Rightarrow> int option"

fun dfs :: "nat \<Rightarrow> nat \<Rightarrow> 'a comment_scheme list \<Rightarrow> int \<Rightarrow> depth_store
              \<Rightarrow> (nat list \<times> depth_store) option"
and dfs_for :: "nat \<Rightarrow> nat \<Rightarrow> nat list \<Rightarrow> 'a comment_scheme list \<Rightarrow> int \<Rightarrow> nat list
              \<Rightarrow> depth_store \<Rightarrow> (nat list \<times> depth_store) option"
where
  "dfs 0 node all_nodes depth ds = None"
| "dfs (Suc fuel) node all_nodes depth ds =
     dfs_for fuel node [0..<length all_nodes] all_nodes depth [node] (ds(node \<mapsto> depth))"
| "dfs_for fuel node [] all_nodes depth to_return ds = Some (to_return, ds)"
| "dfs_for fuel node (subnode # rest) all_nodes depth to_return ds =
     (if parent (all_nodes ! subnode) \<noteq> None \<and>
         the (parent (all_nodes ! subnode)) = comment_id (all_nodes ! node)
      then (case dfs fuel subnode all_nodes (depth + 1) ds of
              None \<Rightarrow> None
            | Some (r, ds') \<Rightarrow> dfs_for fuel node rest all_nodes depth (to_return @ r) ds')
      else dfs_for fuel node rest all_nodes depth to_return ds)"

text \<open>The loop of lines 61-63 over the references of \<open>children\<close>.\<close>

fun get_tree_for :: "nat \<Rightarrow> nat list \<Rightarrow> 'a comment_scheme list \<Rightarrow> nat list \<Rightarrow> depth_store
                       \<Rightarrow> (nat list \<times> depth_store) option" where
  "get_tree_for fuel [] children to_return ds = Some (to_return, ds)"
| "get_tree_for fuel (child # rest) children to_return ds =
     (if parent (children ! child) = None
      then (case dfs fuel child children 0 ds of
              None \<Rightarrow> None
            | Some (r, ds') \<Rightarrow> get_tree_for fuel rest children (to_return @ r) ds')
      else get_tree_for fuel rest children to_return ds)"

text \<open>
  Lines 60-64 on a list \<open>children\<close> of objects whose \<open>depth\<close> attributes on entry are
  \<open>ds\<close>. The caller receives the objects of \<open>to_return\<close>, each with the \<open>depth\<close>
  attribute it has when the call returns.
\<close>

definition build_tree :: "depth_store \<Rightarrow> nat \<Rightarrow> 'a comment_scheme list
                            \<Rightarrow> ('a comment_scheme \<times> int option) list option" where
  "build_tree ds fuel children =
     (case get_tree_for fuel [0..<length children] children [] ds of
        None \<Rightarrow> None
      | Some (to_return, ds') \<Rightarrow> Some (map (\<lambda>r. (children ! r, ds' r)) to_return))"

text \<open>Lines 55-59: the comments of the manager's query set attached to the object.\<close>

definition fetch_children :: "manager \<Rightarrow> 'a comment_scheme list \<Rightarrow> content_object
                                \<Rightarrow> 'a comment_scheme list" where
  "fetch_children self table obj =
     (let content_type' = get_for_model obj
      in filter (\<lambda>c. content_type c = content_type' \<and> object_id c = pk obj)
           (get_query_set self table))"

text \<open>
  \<open>get_tree\<close>: \<open>list(...)\<close> at line 56 creates fresh objects, none of which has a
  \<open>depth\<close> attribute.
\<close>

definition get_tree :: "nat \<Rightarrow> manager \<Rightarrow> 'a comment_scheme list \<Rightarrow> content_object
                          \<Rightarrow> ('a comment_scheme \<times> int option) list option" where
  "get_tree fuel self table obj =
     build_tree (\<lambda>r. None) fuel (fetch_children self table obj)"

section \<open>Write path (lines 152-158, 268-274)\<close>

text \<open>
  Both \<open>save\<close> methods have the same body. \<open>not self.markup\<close> holds when the column is
  \<open>None\<close> or \<open>0\<close>. The clock is read twice, \<open>now1\<close> at line 155 and \<open>now2\<close> at line 157.
  The framework's \<open>Model.save\<close>, which writes the instance to the table, is the
  parameter \<open>super_save\<close>. The result is the instance after the call and the table.
\<close>

definition save :: "('a comment_scheme \<Rightarrow> 'db \<Rightarrow> 'db) \<Rightarrow> datetime \<Rightarrow> datetime
                      \<Rightarrow> 'a comment_scheme \<Rightarrow> 'db \<Rightarrow> 'a comment_scheme \<times> 'db" where
  "save super_save now1 now2 self db =
     (let self1 = (if markup self = None \<or> markup self = Some 0
                   then self\<lparr>markup := Some PLAINTEXT\<rparr> else self);
          self2 = self1\<lparr>date_modified := now1\<rparr>;
          self3 = (if date_approved self2 = None \<and> is_approved self2
                   then self2\<lparr>date_approved := Some now2\<rparr> else self2)
      in (self3, super_save self3 db))"

text \<open>
  A sequence of writes to one instance: before each \<open>save\<close> the caller may assign
  attributes (\<open>edit\<close>); each \<open>save\<close> reads the clock twice.
\<close>

fun save_all :: "('a comment_scheme \<Rightarrow> 'db \<Rightarrow> 'db)
                   \<Rightarrow> (('a comment_scheme \<Rightarrow> 'a comment_scheme) \<times> datetime \<times> datetime) list
                   \<Rightarrow> 'a comment_scheme \<Rightarrow> 'db \<Rightarrow> 'a comment_scheme \<times> 'db" where
  "save_all super_save [] self db = (self, db)"
| "save_all super_save ((edit, now1, now2) # steps) self db =
     (case save super_save now1 now2 (edit self) db of
        (self', db') \<Rightarrow> save_all super_save steps self' db')"

text \<open>
  The value the framework's constructor gives the column \<open>markup\<close>: the keyword
  argument when one is passed, else the default declared at lines 135 and 251.
\<close>

definition init_markup :: "int option option \<Rightarrow> int option" where
  "init_markup kw = (case kw of None \<Rightarrow> Some PLAINTEXT | Some v \<Rightarrow> v)"

section \<open>Accessors bound to a content object (lines 66-90)\<close>

text \<open>
  The keyword arguments \<open>**kwargs\<close> are a dictionary from column names to values: one
  optional entry per column, \<open>None\<close> when the key is absent.
\<close>

record kwargs =
  kw_id :: "int option"
  kw_content_type :: "int option"
  kw_object_id :: "int option"
  kw_parent :: "int option option"
  kw_date_submitted :: "datetime option"
  kw_date_modified :: "datetime option"
  kw_date_approved :: "datetime option option"
  kw_comment :: "string option"
  kw_markup :: "int option option"
  kw_is_public :: "bool option"
  kw_is_approved :: "bool option"
  kw_ip_address :: "string option option"

definition generate_object_kwarg_dict :: "content_object \<Rightarrow> kwargs \<Rightarrow> kwargs" where
  "generate_object_kwarg_dict obj kw =
     kw\<lparr>kw_content_type := Some (get_for_model obj), kw_object_id := Some (pk obj)\<rparr>"

datatype error = NotFound | MultipleResults

definition kw_ok :: "'v option \<Rightarrow> 'v \<Rightarrow> bool" where
  "kw_ok k v = (case k of None \<Rightarrow> True | Some w \<Rightarrow> v = w)"

definition matches :: "kwargs \<Rightarrow> 'a comment_scheme \<Rightarrow> bool" where
  "matches kw c =
     (kw_ok (kw_id kw) (comment_id c) \<and> kw_ok (kw_content_type kw) (content_type c) \<and>
      kw_ok (kw_object_id kw) (object_id c) \<and> kw_ok (kw_parent kw) (parent c) \<and>
      kw_ok (kw_date_submitted kw) (date_submitted c) \<and>
      kw_ok (kw_date_modified kw) (date_modified c) \<and>
      kw_ok (kw_date_approved kw) (date_approved c) \<and> kw_ok (kw_comment kw) (comment c) \<and>
      kw_ok (kw_markup kw) (markup c) \<and> kw_ok (kw_is_public kw) (is_public c) \<and>
      kw_ok (kw_is_approved kw) (is_approved c) \<and> kw_ok (kw_ip_address kw) (ip_address c))"

text \<open>
  Modelled from the spec: the framework's single-result fetch \<open>Manager.get\<close>, which is
  not part of this repository. It "fetches exactly one matching record; fails with
  NotFound if zero match, fails with MultipleResults if more than one".
\<close>

definition get :: "manager \<Rightarrow> 'a comment_scheme list \<Rightarrow> kwargs \<Rightarrow> error + 'a comment_scheme" where
  "get self table kw =
     (case filter (matches kw) (get_query_set self table) of
        [] \<Rightarrow> Inl NotFound
      | [c] \<Rightarrow> Inr c
      | _ \<Rightarrow> Inl MultipleResults)"

definition get_for_object :: "manager \<Rightarrow> 'a comment_scheme list \<Rightarrow> content_object \<Rightarrow> kwargs
                                \<Rightarrow> error + 'a comment_scheme" where
  "get_for_object self table obj kw = get self table (generate_object_kwarg_dict obj kw)"

text \<open>
  The records a call \<open>get_for_object(obj, **kw)\<close> is about: those of the manager's
  query set that are attached to \<open>obj\<close> and carry the given values in the other
  columns named by \<open>kw\<close>.
\<close>

definition matching :: "manager \<Rightarrow> 'a comment_scheme list \<Rightarrow> content_object \<Rightarrow> kwargs
                          \<Rightarrow> 'a comment_scheme list" where
  "matching self table obj kw =
     filter (\<lambda>c. content_type c = get_for_model obj \<and> object_id c = pk obj \<and>
                 matches (kw\<lparr>kw_content_type := None, kw_object_id := None\<rparr>) c)
       (get_query_set self table)"

section \<open>A scenario\<close>

text \<open>
  Owner \<open>O\<close> with the comments \<open>A\<close> (no parent), \<open>B\<close> (parent \<open>A\<close>), \<open>C\<close> (no parent)
  and \<open>D\<close> (parent \<open>B\<close>), stored in this order.
\<close>

definition scenario_O :: content_object where
  "scenario_O = \<lparr>model_type = 7, pk = 1\<rparr>"

definition scenario_comment :: "int \<Rightarrow> int option \<Rightarrow> comment" where
  "scenario_comment i p =
     \<lparr>comment_id = i, content_type = 7, object_id = 1, parent = p, date_submitted = i,
      date_modified = i, date_approved = None, comment = ''text'', markup = Some 5,
      is_public = True, is_approved = False, ip_address = None\<rparr>"

definition scenario_A :: comment where "scenario_A = scenario_comment 1 None"
definition scenario_B :: comment where "scenario_B = scenario_comment 2 (Some 1)"
definition scenario_C :: comment where "scenario_C = scenario_comment 3 None"
definition scenario_D :: comment where "scenario_D = scenario_comment 4 (Some 2)"

definition scenario_table :: "comment list" where
  "scenario_table = [scenario_A, scenario_B, scenario_C, scenario_D]"

definition empty_kwargs :: kwargs where
  "empty_kwargs =
     \<lparr>kw_id = None, kw_content_type = None, kw_object_id = None, kw_parent = None,
      kw_date_submitted = None, kw_date_modified = None, kw_date_approved = None,
      kw_comment = None, kw_markup = None, kw_is_public = None, kw_is_approved = None,
      kw_ip_address = None\<rparr>"

text \<open>
  The scenario with two more comments of \<open>O\<close> whose parent links form a cycle, and
  one comment of \<open>O\<close> whose parent belongs to another object.
\<close>

definition other_comment :: comment where
  "other_comment = (scenario_comment 9 None)\<lparr>object_id := 2\<rparr>"

definition cyclic_table :: "comment list" where
  "cyclic_table =
     scenario_table @
     [scenario_comment 5 (Some 6), scenario_comment 6 (Some 5), other_comment,
      scenario_comment 7 (Some 9)]"

section \<open>Vocabulary of the properties\<close>



section \<open>The traversal as a list of emissions\<close>

text \<open>
  The condition of line 30 and that of line 62, on references.
\<close>

definition is_child :: "'a comment_scheme list \<Rightarrow> nat \<Rightarrow> nat \<Rightarrow> bool" where
  "is_child ns node s \<longleftrightarrow>
     parent (ns ! s) \<noteq> None \<and> the (parent (ns ! s)) = comment_id (ns ! node)"

definition is_root :: "'a comment_scheme list \<Rightarrow> nat \<Rightarrow> bool" where
  "is_root ns r \<longleftrightarrow> parent (ns ! r) = None"

text \<open>
  \<open>walk\<close> lists the pairs (reference, depth) in the order in which \<open>dfs\<close> emits them;
  \<open>writes\<close> replays the assignments \<open>node.depth = depth\<close> on a store. They are
  related to \<open>dfs\<close> by lemma \<open>dfs_walk\<close> below.
\<close>

fun walk :: "nat \<Rightarrow> nat \<Rightarrow> 'a comment_scheme list \<Rightarrow> int \<Rightarrow> (nat \<times> int) list option" where
  "walk 0 node ns d = None"
| "walk (Suc f) node ns d =
     map_option (\<lambda>rs. (node, d) # concat rs)
       (those (map (\<lambda>s. walk f s ns (d + 1)) (filter (is_child ns node) [0..<length ns])))"

definition writes :: "(nat \<times> int) list \<Rightarrow> depth_store \<Rightarrow> depth_store" where
  "writes ev ds = fold (\<lambda>(r, d) s. s(r \<mapsto> d)) ev ds"

definition tree_events :: "nat \<Rightarrow> 'a comment_scheme list \<Rightarrow> (nat \<times> int) list option" where
  "tree_events f ns =
     map_option concat
       (those (map (\<lambda>r. walk f r ns 0) (filter (is_root ns) [0..<length ns])))"





section \<open>Lemmas about the traversal\<close>

lemma writes_Nil [simp]: "writes [] ds = ds"
  by (simp add: writes_def)

lemma writes_Cons [simp]: "writes ((r, d) # ev) ds = writes ev (ds(r \<mapsto> d))"
  by (simp add: writes_def)

lemma writes_append [simp]: "writes (xs @ ys) ds = writes ys (writes xs ds)"
  by (simp add: writes_def)

lemma dfs_for_Cons:
  "dfs_for fuel node (subnode # rest) ns d acc ds =
     (if is_child ns node subnode
      then (case dfs fuel subnode ns (d + 1) ds of
              None \<Rightarrow> None
            | Some (r, ds') \<Rightarrow> dfs_for fuel node rest ns d (acc @ r) ds')
      else dfs_for fuel node rest ns d acc ds)"
  by (simp add: is_child_def)

lemma dfs_walk:
  "dfs f node ns d ds = map_option (\<lambda>ev. (map fst ev, writes ev ds)) (walk f node ns d)"
  "dfs_for f node rest ns d acc ds =
     map_option (\<lambda>rs. (acc @ map fst (concat rs), writes (concat rs) ds))
       (those (map (\<lambda>s. walk f s ns (d + 1)) (filter (is_child ns node) rest)))"
proof (induction f node ns d ds and f node rest ns d acc ds rule: dfs_dfs_for.induct)
  case (1 node all_nodes depth ds)
  show ?case by simp
next
  case (2 fuel node all_nodes depth ds)
  show ?case
    unfolding dfs.simps "2.IH" by (simp add: option.map_comp comp_def)
next
  case (3 fuel node all_nodes depth to_return ds)
  show ?case by simp
next
  case (4 fuel node subnode rest all_nodes depth to_return ds)
  show ?case
  proof (cases "is_child all_nodes node subnode")
    case False
    then have nc: "\<not> (parent (all_nodes ! subnode) \<noteq> None \<and>
        the (parent (all_nodes ! subnode)) = comment_id (all_nodes ! node))"
      by (simp add: is_child_def)
    note ih3 = "4.IH"(3) [OF nc]
    show ?thesis
      unfolding dfs_for_Cons using False ih3 by simp
  next
    case True
    then have c: "parent (all_nodes ! subnode) \<noteq> None \<and>
        the (parent (all_nodes ! subnode)) = comment_id (all_nodes ! node)"
      by (simp add: is_child_def)
    note ih1 = "4.IH"(1) [OF c]
    show ?thesis
    proof (cases "walk fuel subnode all_nodes (depth + 1)")
      case None
      show ?thesis
        unfolding dfs_for_Cons using True None ih1 by simp
    next
      case (Some ev)
      with ih1 have d: "dfs fuel subnode all_nodes (depth + 1) ds = Some (map fst ev, writes ev ds)"
        by simp
      note ih2 = "4.IH"(2) [OF c d refl]
      show ?thesis
        unfolding dfs_for_Cons using True Some d ih2
        by (simp add: option.map_comp comp_def)
    qed
  qed
qed

lemma those_map_Some:
  "those (map g ks) = Some rs \<Longrightarrow> list_all2 (\<lambda>k r. g k = Some r) ks rs"
  by (induction ks arbitrary: rs) (auto split: option.splits)




lemma get_tree_for_Cons:
  "get_tree_for f (child # rest) ns acc ds =
     (if is_root ns child
      then (case dfs f child ns 0 ds of
              None \<Rightarrow> None
            | Some (r, ds') \<Rightarrow> get_tree_for f rest ns (acc @ r) ds')
      else get_tree_for f rest ns acc ds)"
  by (simp add: is_root_def)

lemma get_tree_for_walk:
  "get_tree_for f rest ns acc ds =
     map_option (\<lambda>rs. (acc @ map fst (concat rs), writes (concat rs) ds))
       (those (map (\<lambda>r. walk f r ns 0) (filter (is_root ns) rest)))"
proof (induction rest arbitrary: acc ds)
  case Nil
  show ?case by simp
next
  case (Cons child rest)
  show ?case
  proof (cases "is_root ns child")
    case False
    show ?thesis
      unfolding get_tree_for_Cons using False by (simp add: Cons.IH)
  next
    case True
    show ?thesis
    proof (cases "walk f child ns 0")
      case None
      show ?thesis
        unfolding get_tree_for_Cons using True None by (simp add: dfs_walk(1))
    next
      case (Some ev)
      show ?thesis
        unfolding get_tree_for_Cons using True Some
        by (simp add: dfs_walk(1) Cons.IH option.map_comp comp_def)
    qed
  qed
qed

lemma build_tree_events:
  "build_tree ds f ns =
     map_option (\<lambda>ev. map (\<lambda>r. (ns ! r, writes ev ds r)) (map fst ev))
       (tree_events f ns)"
  by (simp add: build_tree_def tree_events_def get_tree_for_walk option.map_comp comp_def
      split: option.splits)











lemma walk_Suc_Some:
  assumes "walk (Suc f) node ns d = Some ev"
  obtains rs where "ev = (node, d) # concat rs"
    and "list_all2 (\<lambda>k r. walk f k ns (d + 1) = Some r)
           (filter (is_child ns node) [0..<length ns]) rs"
  using assms by (auto dest: those_map_Some)


















lemma writes_notin: "r \<notin> fst ` set ev \<Longrightarrow> writes ev ds r = ds r"
  by (induction ev arbitrary: ds) (auto simp add: writes_def)


lemma tree_events_SomeE:
  assumes "tree_events f ns = Some ev"
  obtains rs where "ev = concat rs"
    and "list_all2 (\<lambda>r x. walk f r ns 0 = Some x) (filter (is_root ns) [0..<length ns]) rs"
  using assms by (auto simp add: tree_events_def dest: those_map_Some)













lemma writes_in:
  "r \<in> fst ` set ev \<Longrightarrow> writes ev ds r = writes ev ds' r"
proof (induction ev arbitrary: ds ds')
  case Nil
  then show ?case by simp
next
  case (Cons x ev)
  obtain r' e' where x: "x = (r', e')" by (cases x)
  show ?case
  proof (cases "r \<in> fst ` set ev")
    case True
    then have "writes ev (ds(r' \<mapsto> e')) r = writes ev (ds'(r' \<mapsto> e')) r"
      by (rule Cons.IH)
    with x show ?thesis by simp
  next
    case False
    with Cons.prems x have "r = r'" by auto
    with False x show ?thesis
      by (simp add: writes_notin)
  qed
qed

lemma build_tree_store_irrelevant: "build_tree ds f ns = build_tree ds' f ns"
proof -
  have "map (\<lambda>r. (ns ! r, writes ev ds r)) (map fst ev) =
      map (\<lambda>r. (ns ! r, writes ev ds' r)) (map fst ev)" for ev
    using writes_in [of _ ev ds ds'] by auto
  then show ?thesis
    unfolding build_tree_events by (cases "tree_events f ns") simp_all
qed

lemma those_map_SomeI:
  "list_all2 (\<lambda>k r. g k = Some r) ks rs \<Longrightarrow> those (map g ks) = Some rs"
  by (induction rule: list_all2_induct) auto

lemma walk_mono:
  "walk f node ns d = Some ev \<Longrightarrow> f \<le> f' \<Longrightarrow> walk f' node ns d = Some ev"
proof (induction f arbitrary: f' node d ev)
  case 0
  then show ?case by simp
next
  case (Suc f)
  from Suc.prems(2) obtain g where f': "f' = Suc g" "f \<le> g"
    by (cases f') auto
  from Suc.prems(1) obtain rs where ev: "ev = (node, d) # concat rs"
    and rs: "list_all2 (\<lambda>k r. walk f k ns (d + 1) = Some r)
           (filter (is_child ns node) [0..<length ns]) rs"
    by (rule walk_Suc_Some)
  from rs have "list_all2 (\<lambda>k r. walk g k ns (d + 1) = Some r)
           (filter (is_child ns node) [0..<length ns]) rs"
    by (rule list_all2_mono) (use Suc.IH f'(2) in blast)
  then have "those (map (\<lambda>s. walk g s ns (d + 1)) (filter (is_child ns node) [0..<length ns]))
      = Some rs"
    by (rule those_map_SomeI)
  with ev f'(1) show ?case by simp
qed

lemma tree_events_mono:
  assumes "tree_events f ns = Some ev" and "f \<le> f'"
  shows "tree_events f' ns = Some ev"
proof -
  from assms(1) obtain rs where ev: "ev = concat rs"
    and rs: "list_all2 (\<lambda>r x. walk f r ns 0 = Some x) (filter (is_root ns) [0..<length ns]) rs"
    by (rule tree_events_SomeE)
  from rs have "list_all2 (\<lambda>r x. walk f' r ns 0 = Some x) (filter (is_root ns) [0..<length ns]) rs"
    by (rule list_all2_mono) (use assms(2) in \<open>blast intro: walk_mono\<close>)
  then have "those (map (\<lambda>r. walk f' r ns 0) (filter (is_root ns) [0..<length ns])) = Some rs"
    by (rule those_map_SomeI)
  with ev show ?thesis
    by (simp add: tree_events_def)
qed

lemma build_tree_mono:
  assumes "build_tree ds f ns = Some out" and "f \<le> f'"
  shows "build_tree ds f' ns = Some out"
proof -
  from assms(1) obtain ev where ev: "tree_events f ns = Some ev"
      "out = map (\<lambda>r. (ns ! r, writes ev ds r)) (map fst ev)"
    by (auto simp add: build_tree_events)
  from ev(1) assms(2) have "tree_events f' ns = Some ev"
    by (rule tree_events_mono)
  with ev(2) show ?thesis
    by (simp add: build_tree_events)
qed





section \<open>Facts about the scenario\<close>

lemmas scenario_defs = scenario_table_def scenario_O_def scenario_A_def scenario_B_def
  scenario_C_def scenario_D_def scenario_comment_def cyclic_table_def other_comment_def



section \<open>The claims\<close>







text \<open>
  Claim C4. For owner \<open>O\<close> with exactly the comments \<open>A\<close>, \<open>B\<close>, \<open>C\<close>, \<open>D\<close> stored in that
  order, \<open>get_tree\<close> returns the sequence \<open>A\<close> at depth 0, \<open>B\<close> at depth 1, \<open>D\<close> at
  depth 2, \<open>C\<close> at depth 0, through either manager and whenever three nested calls
  of \<open>dfs\<close> fit within the recursion limit.
\<close>

theorem get_tree_scenario:
  "get_tree (Suc (Suc (Suc k))) self scenario_table scenario_O =
     Some [(scenario_A, Some 0), (scenario_B, Some 1), (scenario_D, Some 2),
           (scenario_C, Some 0)]"
  by (cases self)
     (simp_all add: get_tree_def build_tree_def fetch_children_def get_query_set_def
        get_for_model_def scenario_table_def scenario_O_def scenario_A_def scenario_B_def
        scenario_C_def scenario_D_def scenario_comment_def upt_rec)

text \<open>
  Claim C5. The public manager's query set admits a comment exactly when \<open>is_public\<close>
  or \<open>is_approved\<close> is true, and any further restriction \<open>P\<close> composed with it is
  kept: the result is the rows of the table that satisfy both, in table order.
\<close>

theorem public_filter_narrows:
  "filter P (get_query_set PublicThreadedCommentManager table) =
     filter (\<lambda>c. (is_public c \<or> is_approved c) \<and> P c) table \<and>
   (c \<in> set (filter P (get_query_set PublicThreadedCommentManager table)) \<longleftrightarrow>
      c \<in> set table \<and> (is_public c \<or> is_approved c) \<and> P c)"
  by (auto simp add: get_query_set_def conj_commute)

text \<open>
  Claim C6. When \<open>markup\<close> is unset or falsy at the time of the write, or is what the
  constructor sets when no markup is passed, the instance that \<open>save\<close> hands to the
  framework's writer has \<open>markup = PLAINTEXT\<close>.
\<close>

theorem save_markup_plaintext:
  assumes "markup self = None \<or> markup self = Some 0 \<or> markup self = init_markup None"
    and "save super_save now1 now2 self db = (self', db')"
  shows "markup self' = Some PLAINTEXT \<and> db' = super_save self' db"
  using assms by (auto simp add: save_def init_markup_def Let_def split: if_splits)

theorem save_markup_plaintext_witness:
  "markup (scenario_A\<lparr>markup := None\<rparr>) = None \<and>
   markup (fst (save (#) 10 11 (scenario_A\<lparr>markup := None\<rparr>) [])) = Some PLAINTEXT \<and>
   snd (save (#) 10 11 (scenario_A\<lparr>markup := None\<rparr>) []) =
     [fst (save (#) 10 11 (scenario_A\<lparr>markup := None\<rparr>) [])]"
  using save_markup_plaintext [of "scenario_A\<lparr>markup := None\<rparr>" "(#)" 10 11 "[]"
      "fst (save (#) 10 11 (scenario_A\<lparr>markup := None\<rparr>) [])"
      "snd (save (#) 10 11 (scenario_A\<lparr>markup := None\<rparr>) [])"]
  by simp

text \<open>
  Claim C7. A \<open>save\<close> of an instance whose \<open>date_approved\<close> is unset and whose
  \<open>is_approved\<close> is true sets \<open>date_approved\<close> to the clock reading of line 157. Once
  \<open>date_approved\<close> is set, no sequence of later saves changes it, whatever the
  caller assigns to the other attributes in between.
\<close>

theorem save_date_approved_once:
  "(date_approved self = None \<and> is_approved self \<longrightarrow>
      date_approved (fst (save super_save now1 now2 self db)) = Some now2) \<and>
   (date_approved self = Some t \<and>
    (\<forall>step \<in> set steps. \<forall>c. date_approved (fst step c) = date_approved c) \<longrightarrow>
      date_approved (fst (save_all super_save steps self db)) = Some t)"
proof
  show "date_approved self = None \<and> is_approved self \<longrightarrow>
      date_approved (fst (save super_save now1 now2 self db)) = Some now2"
    by (simp add: save_def Let_def)
next
  have "date_approved self = Some t \<Longrightarrow>
    (\<forall>step \<in> set steps. \<forall>c. date_approved (fst step c) = date_approved c) \<Longrightarrow>
      date_approved (fst (save_all super_save steps self db)) = Some t"
  proof (induction steps arbitrary: self db)
    case Nil
    then show ?case by simp
  next
    case (Cons step steps)
    obtain edit n1 n2 where step: "step = (edit, n1, n2)"
      by (cases step) auto
    obtain self' db' where sv: "save super_save n1 n2 (edit self) db = (self', db')"
      by (cases "save super_save n1 n2 (edit self) db") auto
    from Cons.prems step have "date_approved (edit self) = Some t"
      by simp
    with sv have "date_approved self' = Some t"
      by (auto simp add: save_def Let_def split: if_splits)
    moreover from Cons.prems have
      "\<forall>step \<in> set steps. \<forall>c. date_approved (fst step c) = date_approved c"
      by simp
    ultimately have "date_approved (fst (save_all super_save steps self' db')) = Some t"
      by (rule Cons.IH)
    with step sv show ?case by simp
  qed
  then show "date_approved self = Some t \<and>
    (\<forall>step \<in> set steps. \<forall>c. date_approved (fst step c) = date_approved c) \<longrightarrow>
      date_approved (fst (save_all super_save steps self db)) = Some t"
    by blast
qed

theorem save_date_approved_once_witness:
  "date_approved (fst (save (#) 10 11 (scenario_A\<lparr>is_approved := True\<rparr>) [])) = Some 11 \<and>
   date_approved (fst (save_all (#)
       [(\<lambda>c. c\<lparr>is_approved := False\<rparr>, 20, 21), (\<lambda>c. c\<lparr>is_approved := True\<rparr>, 30, 31)]
       (scenario_A\<lparr>date_approved := Some 11\<rparr>) [])) = Some 11"
  using save_date_approved_once [where self = "scenario_A\<lparr>is_approved := True\<rparr>"
      and super_save = "(#)" and ?now1.0 = 10 and ?now2.0 = 11 and db = "[]"
      and steps = "[]" and t = 0]
    save_date_approved_once [where self = "scenario_A\<lparr>date_approved := Some 11\<rparr>"
      and t = 11 and super_save = "(#)" and db = "[]" and ?now1.0 = 0 and ?now2.0 = 0 and steps =
      "[(\<lambda>c. c\<lparr>is_approved := False\<rparr>, 20, 21), (\<lambda>c. c\<lparr>is_approved := True\<rparr>, 30, 31)]"]
  by (simp add: scenario_A_def scenario_comment_def)

text \<open>
  Claim C8. \<open>get_for_object\<close> returns the matching record when exactly one record
  matches, fails with \<open>NotFound\<close> when none does, and fails with \<open>MultipleResults\<close>
  when more than one does.
\<close>

theorem get_for_object_result:
  "(matching self table obj kw = [c] \<longrightarrow> get_for_object self table obj kw = Inr c) \<and>
   (matching self table obj kw = [] \<longrightarrow> get_for_object self table obj kw = Inl NotFound) \<and>
   (1 < length (matching self table obj kw) \<longrightarrow>
      get_for_object self table obj kw = Inl MultipleResults)"
proof -
  have m: "matches (generate_object_kwarg_dict obj kw) x \<longleftrightarrow>
        content_type x = get_for_model obj \<and> object_id x = pk obj \<and>
        matches (kw\<lparr>kw_content_type := None, kw_object_id := None\<rparr>) x" for x :: "'a comment_scheme"
    by (auto simp add: matches_def generate_object_kwarg_dict_def kw_ok_def)
  have eq: "filter (matches (generate_object_kwarg_dict obj kw)) (get_query_set self table) =
        matching self table obj kw"
    unfolding matching_def by (rule filter_cong) (simp_all add: m)
  show ?thesis
    unfolding get_for_object_def get_def eq
    by (cases "matching self table obj kw" rule: list.exhaust; simp split: list.splits)
qed

theorem get_for_object_result_witness:
  "get_for_object ThreadedCommentManager scenario_table scenario_O
     (empty_kwargs\<lparr>kw_id := Some 2\<rparr>) = Inr scenario_B \<and>
   get_for_object ThreadedCommentManager scenario_table scenario_O
     (empty_kwargs\<lparr>kw_id := Some 8\<rparr>) = Inl NotFound \<and>
   get_for_object ThreadedCommentManager scenario_table scenario_O
     (empty_kwargs\<lparr>kw_parent := Some None\<rparr>) = Inl MultipleResults"
proof -
  have m1: "matching ThreadedCommentManager scenario_table scenario_O
      (empty_kwargs\<lparr>kw_id := Some 2\<rparr>) = [scenario_B]"
    by (simp add: matching_def matches_def kw_ok_def empty_kwargs_def get_query_set_def
        get_for_model_def scenario_defs)
  have m2: "matching ThreadedCommentManager scenario_table scenario_O
      (empty_kwargs\<lparr>kw_id := Some 8\<rparr>) = []"
    by (simp add: matching_def matches_def kw_ok_def empty_kwargs_def get_query_set_def
        get_for_model_def scenario_defs)
  have m3: "1 < length (matching ThreadedCommentManager scenario_table scenario_O
      (empty_kwargs\<lparr>kw_parent := Some None\<rparr>))"
    by (simp add: matching_def matches_def kw_ok_def empty_kwargs_def get_query_set_def
        get_for_model_def scenario_defs)
  from m1 m2 m3
    get_for_object_result [of ThreadedCommentManager scenario_table scenario_O
      "empty_kwargs\<lparr>kw_id := Some 2\<rparr>" scenario_B]
    get_for_object_result [of ThreadedCommentManager scenario_table scenario_O
      "empty_kwargs\<lparr>kw_id := Some 8\<rparr>" scenario_B]
    get_for_object_result [of ThreadedCommentManager scenario_table scenario_O
      "empty_kwargs\<lparr>kw_parent := Some None\<rparr>" scenario_B]
  show ?thesis
    by simp
qed

text \<open>
  Claim C9. After a call of \<open>get_tree\<close> that returned \<open>out1\<close>, a second traversal of the
  comments of the same object in the unchanged table returns \<open>out1\<close> again whenever
  its recursion budget is not smaller, and under no budget returns anything else.
  This holds whatever \<open>depth\<close> attributes \<open>ds\<close> the objects carry when the second
  traversal starts: none, as for the fresh objects of a second \<open>get_tree\<close>, or those
  that the first call wrote.
\<close>

theorem get_tree_idempotent:
  assumes "get_tree fuel1 self table obj = Some out1"
  shows "(fuel1 \<le> fuel2 \<longrightarrow>
            build_tree ds fuel2 (fetch_children self table obj) = Some out1) \<and>
         (\<forall>out2. build_tree ds fuel2 (fetch_children self table obj) = Some out2 \<longrightarrow>
            out2 = out1)"
proof -
  let ?ns = "fetch_children self table obj"
  from assms have one: "build_tree ds fuel1 ?ns = Some out1"
    unfolding get_tree_def
    using build_tree_store_irrelevant [of ds fuel1 ?ns "\<lambda>r. None"] by simp
  have a: "build_tree ds fuel2 ?ns = Some out1" if "fuel1 \<le> fuel2"
    using one that by (rule build_tree_mono)
  have b: "out2 = out1" if two: "build_tree ds fuel2 ?ns = Some out2" for out2
  proof (cases "fuel1 \<le> fuel2")
    case True
    with a two show ?thesis by simp
  next
    case False
    then have "fuel2 \<le> fuel1" by simp
    with two have "build_tree ds fuel1 ?ns = Some out2"
      by (rule build_tree_mono)
    with one show ?thesis by simp
  qed
  from a b show ?thesis by blast
qed

theorem get_tree_idempotent_witness:
  "get_tree (Suc (Suc (Suc 0))) ThreadedCommentManager scenario_table scenario_O =
     Some [(scenario_A, Some 0), (scenario_B, Some 1), (scenario_D, Some 2),
           (scenario_C, Some 0)] \<and>
   build_tree (\<lambda>r. Some 5) (Suc (Suc (Suc (Suc 0))))
       (fetch_children ThreadedCommentManager scenario_table scenario_O) =
     Some [(scenario_A, Some 0), (scenario_B, Some 1), (scenario_D, Some 2),
           (scenario_C, Some 0)]"
proof -
  have h: "get_tree (Suc (Suc (Suc 0))) ThreadedCommentManager scenario_table scenario_O =
     Some [(scenario_A, Some 0), (scenario_B, Some 1), (scenario_D, Some 2),
           (scenario_C, Some 0)]"
    by (simp add: get_tree_def build_tree_def fetch_children_def get_query_set_def
        get_for_model_def scenario_defs upt_rec)
  have le: "Suc (Suc (Suc 0)) \<le> Suc (Suc (Suc (Suc 0)))"
    by simp
  note r = get_tree_idempotent [OF h, where ds = "\<lambda>r. Some 5", THEN conjunct1, THEN mp, OF le]
  from h r show ?thesis
    by (rule conjI)
qed



end
